theory Spec2Isabelle
  imports Complex_Main "HOL-Library.AList"
begin

section \<open>Python values, byte strings and exceptions\<close>

text \<open>
  The program is Python 2. A \<open>str\<close> is a byte string and is modelled as \<open>string\<close>
  (Isabelle's \<open>char\<close> is one byte); a \<open>unicode\<close> object is modelled as the list of its
  code points. The values that the source passes around without a fixed type (the pairs
  returned by \<open>get_csq\<close> and \<open>get_creg\<close>, the result of \<open>access_mobile\<close>) are \<open>pyval\<close>s,
  and \<open>truthy\<close> is Python's truth test on them.
\<close>

type_synonym ustring = "nat list"

datatype pyval = PyNone | PyBool bool | PyInt int | PyStr string

fun truthy :: "pyval \<Rightarrow> bool" where
  "truthy PyNone = False"
| "truthy (PyBool b) = b"
| "truthy (PyInt n) = (n \<noteq> 0)"
| "truthy (PyStr s) = (s \<noteq> [])"

datatype exn =
    Timeout               \<comment> \<open>filelock.Timeout\<close>
  | SerialException       \<comment> \<open>serial.SerialException\<close>
  | TypeError
  | KeyError
  | UnicodeEncodeError
  | UnicodeDecodeError
  | IOError
  | OSError

definition u :: "string \<Rightarrow> ustring" where
  \<comment> \<open>a byte-string literal used where the source mixes it with unicode objects\<close>
  "u s = map of_char s"

definition is_digit :: "char \<Rightarrow> bool" where
  \<comment> \<open>the class \<open>\d\<close> of a byte-string pattern: 0 to 9\<close>
  "is_digit c = (let n = (of_char c :: nat) in 48 \<le> n \<and> n \<le> 57)"

definition is_space :: "char \<Rightarrow> bool" where
  \<comment> \<open>what \<open>str.strip()\<close> removes: space, tab, LF, VT, FF, CR\<close>
  "is_space c = (let n = (of_char c :: nat) in n = 32 \<or> (9 \<le> n \<and> n \<le> 13))"

definition strip :: "string \<Rightarrow> string" where
  "strip s = rev (dropWhile is_space (rev (dropWhile is_space s)))"

definition startswith :: "string \<Rightarrow> string \<Rightarrow> bool" where
  "startswith s p = (take (length p) s = p)"

fun after_prefix :: "string \<Rightarrow> string \<Rightarrow> string option" where
  "after_prefix [] s = Some s"
| "after_prefix (p # ps) [] = None"
| "after_prefix (p # ps) (c # cs) = (if p = c then after_prefix ps cs else None)"

definition py_int :: "string \<Rightarrow> int" where
  \<comment> \<open>\<open>int(s)\<close> for a string of decimal digits\<close>
  "py_int ds = foldl (\<lambda>a d. 10 * a + (int (of_char d) - 48)) 0 ds"

section \<open>StatusParser: \<open>parse_csq\<close> and \<open>parse_creg\<close>\<close>

text \<open>
  \<open>CSQ_REGEX = re.compile(r'\+CSQ: (\d{1,2}),')\<close> and
  \<open>CREG_REGEX = re.compile(r'\+CREG: (\d),\d')\<close>, both used with \<open>match\<close>, which anchors
  at the start of the string only. \<open>digits_then_comma k r\<close> is the attempt to match
  exactly \<open>k\<close> digits and a comma at the start of \<open>r\<close>; the greedy \<open>{1,2}\<close> tries two
  digits first and backtracks to one. The functions return group 1, \<open>None\<close> when the
  pattern does not match.
\<close>

definition digits_then_comma :: "nat \<Rightarrow> string \<Rightarrow> string option" where
  "digits_then_comma k r =
     (if k < length r \<and> list_all is_digit (take k r) \<and> r ! k = CHR '',''
      then Some (take k r) else None)"

definition csq_match :: "string \<Rightarrow> string option" where
  "csq_match s =
     (case after_prefix ''+CSQ: '' s of
        None \<Rightarrow> None
      | Some r \<Rightarrow>
          (case digits_then_comma 2 r of
             Some g \<Rightarrow> Some g
           | None \<Rightarrow> digits_then_comma 1 r))"

definition creg_match :: "string \<Rightarrow> string option" where
  "creg_match s =
     (case after_prefix ''+CREG: '' s of
        None \<Rightarrow> None
      | Some r \<Rightarrow>
          (case digits_then_comma 1 r of
             None \<Rightarrow> None
           | Some g \<Rightarrow> if 2 < length r \<and> is_digit (r ! 2) then Some g else None))"

definition parse_csq :: "string \<Rightarrow> int" where
  "parse_csq csq =
     (case csq_match csq of
        None \<Rightarrow> 0
      | Some g \<Rightarrow> if g \<noteq> [] then py_int g else 0)"

definition parse_creg :: "string \<Rightarrow> int" where
  "parse_creg creg =
     (case creg_match creg of
        None \<Rightarrow> - 1
      | Some g \<Rightarrow> if g \<noteq> [] then py_int g else - 1)"

section \<open>ModemChannel: \<open>get_csq\<close> and \<open>get_creg\<close>\<close>

text \<open>
  One call of \<open>get_csq\<close> or \<open>get_creg\<close> is one session with the lock and the serial
  device. The session record says what the environment does in it: whether
  \<open>SLOCK.acquire(timeout=20)\<close> raises \<open>filelock.Timeout\<close>, whether opening the device or
  writing the command raises \<open>serial.SerialException\<close>, and what the successive
  \<open>readline()\<close> calls give: a line, or \<open>serial.SerialException\<close>. A \<open>readline()\<close> past
  the end of the list is a read timeout, which pyserial reports as the empty string.
\<close>

datatype read_result = Line string | ReadFails

record serial_session =
  lock_times_out :: bool
  open_fails :: bool
  write_fails :: bool
  replies :: "read_result list"

fun readline :: "read_result list \<Rightarrow> exn + (string \<times> read_result list)" where
  "readline [] = Inr ([], [])"
| "readline (Line l # rs) = Inr (l, rs)"
| "readline (ReadFails # rs) = Inl SerialException"

definition dialogue :: "serial_session \<Rightarrow> exn + (pyval \<times> pyval)" where
  \<comment> \<open>the body of \<open>with serial.Serial(...) as device\<close>, the same in both functions but
      for the command written\<close>
  "dialogue s =
     (if open_fails s then Inl SerialException
      else if write_fails s then Inl SerialException
      else
        case readline (replies s) of
          Inl e \<Rightarrow> Inl e
        | Inr (first, rest) \<Rightarrow>
            (case (if startswith first ''AT'' then readline rest else Inr (first, rest)) of
               Inl e \<Rightarrow> Inl e
             | Inr (reply, rest') \<Rightarrow>
                 (case readline rest' of
                    Inl e \<Rightarrow> Inl e
                  | Inr (ok, _) \<Rightarrow> Inr (PyStr reply, PyStr (strip ok)))))"

definition get_creg :: "serial_session \<Rightarrow> exn + (pyval \<times> pyval)" where
  "get_creg s =
     (case (if lock_times_out s then Inl Timeout
            else
              case dialogue s of
                Inl e \<Rightarrow> if e = SerialException then Inr (PyNone, PyBool False) else Inl e
              | Inr r \<Rightarrow> Inr r) of
        Inl e \<Rightarrow> if e = Timeout then Inr (PyNone, PyBool False) else Inl e
      | Inr r \<Rightarrow> Inr r)"

definition get_csq :: "serial_session \<Rightarrow> exn + (pyval \<times> pyval)" where
  "get_csq s =
     (case (if lock_times_out s then Inl Timeout
            else
              case dialogue s of
                Inl e \<Rightarrow> if e = SerialException then Inr (PyInt 0, PyBool False) else Inl e
              | Inr r \<Rightarrow> Inr r) of
        Inl e \<Rightarrow> if e = Timeout then Inr (PyInt 0, PyBool False) else Inl e
      | Inr r \<Rightarrow> Inr r)"

definition device_raises :: "serial_session \<Rightarrow> bool" where
  \<comment> \<open>one of the device operations that the session performs raises
      \<open>serial.SerialException\<close>: the open, the write, one of the two reads that are always
      performed, or the third read, which is performed after an echo\<close>
  "device_raises s =
     (open_fails s \<or> write_fails s \<or> ReadFails \<in> set (take 2 (replies s)) \<or>
      (case replies s of
         Line l # rest \<Rightarrow> startswith l ''AT'' \<and> ReadFails \<in> set (take 2 rest)
       | _ \<Rightarrow> False))"

section \<open>ResetGovernor: \<open>get_modem_reset_file\<close>, \<open>perform_reset\<close>, \<open>reset_modem\<close>\<close>

text \<open>
  A Python float is a finite double, an infinity or NaN; a finite double is modelled by
  the real number it denotes. The source performs one float operation, the subtraction
  \<open>now - last\<close>, which IEEE arithmetic computes as the exact difference rounded to a
  double. The rounding is a parameter of the model, of a type that holds what the
  properties below use of rounding to nearest: it is monotone and it is exact at 0.
  The comparison with the interval is exact. The builtins \<open>float\<close> (from a string) and
  \<open>str\<close> (of a float) are parameters too, collected with the rounding in \<open>py_runtime\<close>:
  \<open>py_float s = None\<close> stands for \<open>ValueError\<close>.
\<close>

typedef rounding = "{f :: real \<Rightarrow> real. mono f \<and> f 0 = 0}"
  morphisms round_with Rounding
  by (rule exI [of _ "\<lambda>x. x"]) (simp add: mono_def)

setup_lifting type_definition_rounding

lift_definition exact_rounding :: rounding is "\<lambda>x. x"
  by (simp add: mono_def)

datatype pyfloat = Fin real | PosInf | NegInf | NaN

record py_runtime =
  py_float :: "string \<Rightarrow> pyfloat option"
  py_str :: "real \<Rightarrow> string"
  py_round :: rounding

fun elapsed_exceeds :: "py_runtime \<Rightarrow> real \<Rightarrow> pyfloat \<Rightarrow> real \<Rightarrow> bool" where
  \<comment> \<open>\<open>now - last > interval\<close> for a finite \<open>now\<close> and \<open>interval\<close>\<close>
  "elapsed_exceeds rt now (Fin last') interval = (round_with (py_round rt) (now - last') > interval)"
| "elapsed_exceeds rt now PosInf interval = False"
| "elapsed_exceeds rt now NegInf interval = True"
| "elapsed_exceeds rt now NaN interval = False"

text \<open>
  The timestamp file at \<open>MODEM_RESET_TIMESTAMP_PATH\<close> is \<open>Missing\<close> when
  \<open>open(path, 'r+')\<close> raises \<open>IOError\<close>, and has a content otherwise. The events of a run
  that the claims speak about are recorded in a trace: each entry into \<open>reset_modem\<close> and
  \<open>perform_reset\<close>, each process started by \<open>subprocess.Popen((RESET_MODEM,))\<close> and each
  warning about the lock. The environment of one run says what the clock reads, whether
  the lock acquisition in \<open>perform_reset\<close> times out, whether \<open>subprocess.Popen\<close> raises
  \<open>OSError\<close> (the script is missing or not executable) and whether \<open>open(path, 'w')\<close>
  raises \<open>IOError\<close>; the source catches neither of the last two. The clock is read a
  second time when the timestamp is written, \<open>write_delay\<close> later in absolute value.
  A function that can raise after it has changed the world returns the exception, if
  any, together with the world it leaves.
\<close>

datatype file_state = Missing | Content string

datatype event = ResetModem | PerformReset | Popen string | LockWarning

record world =
  reset_file :: file_state
  trace :: "event list"

record reset_env =
  time_first :: real                     \<comment> \<open>\<open>time.time()\<close> at the start of \<open>reset_modem\<close>\<close>
  write_delay :: real                    \<comment> \<open>the time from there to the second \<open>time.time()\<close>\<close>
  reset_lock_times_out :: bool           \<comment> \<open>\<open>SLOCK.acquire\<close> in \<open>perform_reset\<close>\<close>
  popen_fails :: bool                    \<comment> \<open>\<open>subprocess.Popen\<close> raises \<open>OSError\<close>\<close>
  create_fails :: bool                   \<comment> \<open>\<open>open(path, 'w')\<close> raises \<open>IOError\<close>\<close>
  min_reset_interval :: "real option"    \<comment> \<open>\<open>MODEM_MINIMUM_RESET_INTERVAL\<close>, when configured\<close>

definition time_second :: "reset_env \<Rightarrow> real" where
  \<comment> \<open>\<open>time.time()\<close> when the timestamp is written\<close>
  "time_second e = time_first e + \<bar>write_delay e\<bar>"

definition RESET_MODEM :: string where
  "RESET_MODEM = ''/opt/httpapi/reset_modem.sh''"

definition get_modem_reset_file :: "reset_env \<Rightarrow> file_state \<Rightarrow> exn + (string \<times> bool)" where
  \<comment> \<open>the content of the opened file and \<open>created\<close>; mode \<open>'w'\<close> creates the file empty\<close>
  "get_modem_reset_file e f =
     (case f of
        Content c \<Rightarrow> Inr (c, False)
      | Missing \<Rightarrow> if create_fails e then Inl IOError else Inr ([], True))"

definition perform_reset :: "reset_env \<Rightarrow> world \<Rightarrow> exn option \<times> world" where
  "perform_reset e w =
     (let w1 = w\<lparr>trace := trace w @ [PerformReset]\<rparr>
      in if reset_lock_times_out e then (None, w1\<lparr>trace := trace w1 @ [LockWarning]\<rparr>)
         else if popen_fails e then (Some OSError, w1)
         else (None, w1\<lparr>trace := trace w1 @ [Popen RESET_MODEM]\<rparr>))"

definition read_last :: "py_runtime \<Rightarrow> string \<times> bool \<Rightarrow> pyfloat" where
  \<comment> \<open>the value of \<open>last\<close> in \<open>reset_modem\<close>; \<open>float\<close> rejects the empty string, as it
      rejects every string for which \<open>py_float\<close> is \<open>None\<close>\<close>
  "read_last rt opened =
     (case opened of
        (c, created) \<Rightarrow>
          if created then Fin 0
          else if strip c = [] then Fin 0
          else case py_float rt (strip c) of Some v \<Rightarrow> v | None \<Rightarrow> Fin 0)"

definition minimum_reset_interval :: "reset_env \<Rightarrow> real" where
  \<comment> \<open>\<open>app.config.get('MODEM_MINIMUM_RESET_INTERVAL', 300)\<close>\<close>
  "minimum_reset_interval e = (case min_reset_interval e of Some i \<Rightarrow> i | None \<Rightarrow> 300)"

definition reset_modem :: "py_runtime \<Rightarrow> reset_env \<Rightarrow> world \<Rightarrow> exn option \<times> world" where
  "reset_modem rt e w =
     (let now = time_first e;
          w0 = w\<lparr>trace := trace w @ [ResetModem]\<rparr>
      in case get_modem_reset_file e (reset_file w0) of
           Inl x \<Rightarrow> (Some x, w0)
         | Inr opened \<Rightarrow>
             (let w1 = w0\<lparr>reset_file := Content (fst opened)\<rparr>;
                  last' = read_last rt opened
              in if elapsed_exceeds rt now last' (minimum_reset_interval e)
                 then (case perform_reset e w1 of
                         (Some x, w2) \<Rightarrow> (Some x, w2)
                       | (None, w2) \<Rightarrow>
                           (None, w2\<lparr>reset_file := Content (py_str rt (time_second e))\<rparr>))
                 else (None, w1)))"

definition persisted_last :: "py_runtime \<Rightarrow> file_state \<Rightarrow> pyfloat" where
  \<comment> \<open>the timestamp that a run of \<open>reset_modem\<close> reads from the persisted state\<close>
  "persisted_last rt f =
     (case f of Missing \<Rightarrow> read_last rt ([], True) | Content c \<Rightarrow> read_last rt (c, False))"


section \<open>HealthEvaluator: \<open>modem_status\<close>\<close>

text \<open>
  A view returns \<open>jsonify(dict), status\<close>, modelled as the dictionary (an association
  list) and the status, or it returns Python's \<open>None\<close> by reaching the end of the function
  without a \<open>return\<close>, or it raises.
\<close>

type_synonym response = "(string \<times> string) list \<times> nat"

record health_env =
  csq_session :: serial_session
  creg_session :: serial_session
  reset_session :: reset_env

definition modem_status :: "py_runtime \<Rightarrow> health_env \<Rightarrow> world \<Rightarrow> (exn + response option) \<times> world" where
  "modem_status rt e w =
     (case get_csq (csq_session e) of
        Inl x \<Rightarrow> (Inl x, w)
      | Inr (csq, ok) \<Rightarrow>
          if \<not> truthy ok then (Inr (Some ([(''error'', ''modem not available'')], 500)), w)
          else
            case csq of
              PyStr csq_line \<Rightarrow>
                (let csq_status = parse_csq csq_line
                 in if \<not> (10 \<le> csq_status \<and> csq_status < 99)
                    then
                      if csq_status = 99
                      then (case reset_modem rt (reset_session e) w of
                              (Some x, w') \<Rightarrow> (Inl x, w')
                            | (None, w') \<Rightarrow>
                                (Inr (Some ([(''error'', ''modem not connected or weak signal'')], 500)),
                                 w'))
                      else (Inr (Some ([(''error'', ''modem not connected or weak signal'')], 500)), w)
                    else
                      case get_creg (creg_session e) of
                        Inl x \<Rightarrow> (Inl x, w)
                      | Inr (creg, ok') \<Rightarrow>
                          if \<not> truthy ok'
                          then (Inr (Some ([(''error'', ''modem not available'')], 500)), w)
                          else
                            case creg of
                              PyStr creg_line \<Rightarrow>
                                (let creg_status = parse_creg creg_line
                                 in if \<not> (creg_status = 1 \<or> creg_status = 5)
                                    then (Inr (Some ([(''error'', ''registration problem'')], 500)), w)
                                    else (Inr None, w))
                            | _ \<Rightarrow> (Inl TypeError, w))
            | _ \<Rightarrow> (Inl TypeError, w))"

section \<open>MessageEncoder: the encoding block of \<open>write_sms\<close>\<close>

text \<open>
  \<open>sms['text']\<close> is a \<open>unicode\<close> object; \<open>len\<close> counts its code points.
  \<open>encode('us-ascii')\<close> raises \<open>UnicodeEncodeError\<close> (here \<open>None\<close>) when a code point is
  above 127; \<open>encode('utf-16-be')\<close> writes two bytes per code point of the basic plane and
  a surrogate pair for the others. Both divisions are Python 2 integer divisions of
  non-negative numbers, and the comparison \<open>msg_len % n > 0\<close> is added as 0 or 1.
\<close>

definition encode_us_ascii :: "ustring \<Rightarrow> string option" where
  "encode_us_ascii t = (if list_all (\<lambda>c. c < 128) t then Some (map char_of t) else None)"

definition utf16_unit :: "nat \<Rightarrow> string" where
  "utf16_unit n = [char_of (n div 256), char_of (n mod 256)]"

definition encode_utf_16_be :: "ustring \<Rightarrow> string" where
  "encode_utf_16_be t =
     concat (map (\<lambda>c. if c < 65536 then utf16_unit c
                       else utf16_unit (55296 + (c - 65536) div 1024) @
                            utf16_unit (56320 + (c - 65536) mod 1024)) t)"

definition encode_text :: "ustring \<Rightarrow> bool \<Rightarrow> int \<Rightarrow> string \<times> bool \<times> int" where
  \<comment> \<open>lines 186 to 195: from the text and the current \<open>ucs_field\<close> and \<open>parts_count\<close> to
      \<open>msg\<close> and the new \<open>ucs_field\<close> and \<open>parts_count\<close>\<close>
  "encode_text txt ucs_field parts_count =
     (let msg_len = int (length txt)
      in case encode_us_ascii txt of
           Some msg \<Rightarrow>
             (msg, ucs_field,
              if msg_len > 160
              then msg_len div 153 + (if msg_len mod 153 > 0 then 1 else 0)
              else parts_count)
         | None \<Rightarrow>
             (encode_utf_16_be txt, True,
              if msg_len > 70
              then msg_len div 67 + (if msg_len mod 67 > 0 then 1 else 0)
              else parts_count))"

section \<open>PermissionGate and validation\<close>

text \<open>
  The request runs for an authenticated user with the application's configuration.
  \<open>unicode.isdigit\<close> is decided by the Unicode tables; below 128 the digits are 0 to 9,
  and for the other code points the table is a parameter (\<open>unicode_digit\<close>).
  \<open>create_mode\<close> is the mode that \<open>open(path, 'w')\<close> gives a file it creates.
\<close>

record sms_env =
  username :: string
  OUTGOING :: string
  PREFIX :: string
  MOBILE_PERMS :: "(string \<times> ustring list) list option"
  unicode_digit :: "nat \<Rightarrow> bool"
  create_mode :: nat

definition isdigit_char :: "sms_env \<Rightarrow> nat \<Rightarrow> bool" where
  "isdigit_char e c = (if c < 128 then 48 \<le> c \<and> c \<le> 57 else unicode_digit e c)"

definition validate_mobile :: "sms_env \<Rightarrow> ustring \<Rightarrow> bool" where
  "validate_mobile e mobile = (mobile \<noteq> [] \<and> list_all (isdigit_char e) mobile)"

definition access_mobile :: "sms_env \<Rightarrow> ustring \<Rightarrow> pyval" where
  "access_mobile e mobile =
     (case MOBILE_PERMS e of
        None \<Rightarrow> PyBool True
      | Some perms \<Rightarrow>
          (case map_of perms (username e) of
             None \<Rightarrow> PyBool True
           | Some allowed \<Rightarrow> if mobile \<in> set allowed then PyBool True else PyNone))"

section \<open>SpoolWriter: the queue directory\<close>

text \<open>
  The queue directory is a map from paths to files (content and permission bits), with
  a log of the operations performed on it, in order. \<open>tmp_names\<close> is the sequence of
  random names that \<open>tempfile.mkstemp\<close> draws: it takes the first one whose path does not
  exist yet, creates that file with mode 0600 (384) and returns its path, and raises
  \<open>IOError\<close> when it finds none. \<open>OUTGOING\<close> is taken to be an absolute, normalised path, so
  that \<open>os.path.abspath\<close> leaves the joined path as it is.
\<close>

record spool_file =
  content :: string
  mode :: nat

datatype fs_op =
    Mkstemp string
  | OpenW string
  | Write string string
  | Rename string string
  | Chmod string nat

record spool =
  files :: "string \<Rightarrow> spool_file option"
  fs_log :: "fs_op list"
  tmp_names :: "string list"

definition bind :: "exn + 'a \<Rightarrow> ('a \<Rightarrow> exn + 'b) \<Rightarrow> exn + 'b" where
  "bind m f = (case m of Inl e \<Rightarrow> Inl e | Inr x \<Rightarrow> f x)"

definition NL :: char where
  "NL = CHR 0x0A"

definition is_ascii :: "string \<Rightarrow> bool" where
  "is_ascii s = list_all (\<lambda>c. (of_char c :: nat) < 128) s"

definition path_join :: "string \<Rightarrow> string \<Rightarrow> string" where
  \<comment> \<open>\<open>os.path.join(a, b)\<close>\<close>
  "path_join a b =
     (if startswith b ''/'' then b
      else if a = [] \<or> last a = CHR ''/'' then a @ b
      else a @ ''/'' @ b)"

fun before_first :: "string \<Rightarrow> string \<Rightarrow> string" where
  \<comment> \<open>\<open>s.split(sep)[0]\<close>\<close>
  "before_first sep [] = []"
| "before_first sep (c # cs) = (if startswith (c # cs) sep then [] else c # before_first sep cs)"

definition after_last :: "char \<Rightarrow> string \<Rightarrow> string" where
  \<comment> \<open>\<open>s.split(c)[-1]\<close>\<close>
  "after_last c s = rev (takeWhile (\<lambda>x. x \<noteq> c) (rev s))"

definition tmp_path :: "string \<Rightarrow> string \<Rightarrow> string \<Rightarrow> string \<Rightarrow> string" where
  "tmp_path dir pre suf name = path_join dir (pre @ name @ suf)"

definition mkstemp :: "string \<Rightarrow> string \<Rightarrow> string \<Rightarrow> spool \<Rightarrow> exn + (string \<times> spool)" where
  "mkstemp dir pre suf d =
     (case dropWhile (\<lambda>n. files d (tmp_path dir pre suf n) \<noteq> None) (tmp_names d) of
        [] \<Rightarrow> Inl IOError
      | n # ns \<Rightarrow>
          (let p = tmp_path dir pre suf n
           in Inr (p, d\<lparr>files := (files d)(p \<mapsto> \<lparr>content = [], mode = 384\<rparr>),
                        fs_log := fs_log d @ [Mkstemp p],
                        tmp_names := ns\<rparr>)))"

definition open_w :: "nat \<Rightarrow> string \<Rightarrow> spool \<Rightarrow> spool" where
  \<comment> \<open>\<open>open(p, 'w')\<close>: the file is emptied, or created\<close>
  "open_w cmode p d =
     d\<lparr>files := (files d)(p \<mapsto> \<lparr>content = [],
                                  mode = (case files d p of Some f \<Rightarrow> mode f | None \<Rightarrow> cmode)\<rparr>),
       fs_log := fs_log d @ [OpenW p]\<rparr>"

definition write_file :: "string \<Rightarrow> string \<Rightarrow> spool \<Rightarrow> exn + spool" where
  \<comment> \<open>\<open>f.write(s)\<close> on the file opened at \<open>p\<close>\<close>
  "write_file p s d =
     (case files d p of
        None \<Rightarrow> Inl IOError
      | Some f \<Rightarrow> Inr (d\<lparr>files := (files d)(p \<mapsto> f\<lparr>content := content f @ s\<rparr>),
                         fs_log := fs_log d @ [Write p s]\<rparr>))"

definition rename :: "string \<Rightarrow> string \<Rightarrow> spool \<Rightarrow> exn + spool" where
  \<comment> \<open>\<open>os.rename(p, q)\<close>: a file at \<open>q\<close> is replaced\<close>
  "rename p q d =
     (case files d p of
        None \<Rightarrow> Inl IOError
      | Some f \<Rightarrow> Inr (d\<lparr>files := ((files d)(p := None))(q \<mapsto> f),
                         fs_log := fs_log d @ [Rename p q]\<rparr>))"

definition chmod :: "string \<Rightarrow> nat \<Rightarrow> spool \<Rightarrow> exn + spool" where
  "chmod p m d =
     (case files d p of
        None \<Rightarrow> Inl IOError
      | Some f \<Rightarrow> Inr (d\<lparr>files := (files d)(p \<mapsto> f\<lparr>mode := m\<rparr>),
                         fs_log := fs_log d @ [Chmod p m]\<rparr>))"

section \<open>\<open>write_sms\<close>\<close>

text \<open>
  The result is a Python dictionary whose keys are strings and whose values are
  strings, numbers and dictionaries; a byte string and a unicode string with the same
  ASCII characters are the same key. An exception ends the request: the model then
  returns the exception alone, and what was written to the queue before it is not
  reported.
\<close>

datatype jval = JStr ustring | JInt int | JDict "(ustring \<times> jval) list"

record sms =
  sms_mobiles :: "ustring list"
  sms_text :: ustring

record sms_state =
  result :: "(ustring \<times> jval) list"
  parts_count :: int
  ucs_field :: bool
  disk :: spool

definition set_message_id :: "ustring \<Rightarrow> jval \<Rightarrow> (ustring \<times> jval) list \<Rightarrow> exn + (ustring \<times> jval) list" where
  \<comment> \<open>\<open>result['message_id'][mobile] = v\<close>\<close>
  "set_message_id mobile v res =
     (case map_of res (u ''message_id'') of
        None \<Rightarrow> Inl KeyError
      | Some (JDict ids) \<Rightarrow>
          Inr (AList.update (u ''message_id'') (JDict (AList.update mobile v ids)) res)
      | Some _ \<Rightarrow> Inl TypeError)"

definition spool_message :: "sms_env \<Rightarrow> ustring \<Rightarrow> ustring \<Rightarrow> sms_state \<Rightarrow> exn + (string \<times> sms_state)" where
  \<comment> \<open>lines 184 to 206: the branch of a valid and permitted \<open>mobile\<close>, up to \<open>message_id\<close>.
      The unicode line \<open>'To: ' + mobile + '\n\n'\<close> is written with the ASCII codec, and the
      log message of line 205 decodes the byte strings \<open>auth.username()\<close> and \<open>msg_file\<close>
      with it, since \<open>mobile\<close> is unicode\<close>
  "spool_message e txt mobile st =
     bind (mkstemp (OUTGOING e) (PREFIX e) ''.LOCK'' (disk st)) (\<lambda>(msg_file_lock, d1).
       let msg_file = before_first ''.LOCK'' msg_file_lock;
           (msg, ucs, parts) = encode_text txt (ucs_field st) (parts_count st);
           d2 = open_w (create_mode e) msg_file_lock d1
       in
       bind (write_file msg_file_lock (''From: '' @ username e @ [NL]) d2) (\<lambda>d3.
       bind (if ucs then write_file msg_file_lock (''Alphabet: UCS'' @ [NL]) d3 else Inr d3) (\<lambda>d4.
       bind (case encode_us_ascii (u ''To: '' @ mobile @ u [NL, NL]) of
               None \<Rightarrow> Inl UnicodeEncodeError
             | Some to_line \<Rightarrow> write_file msg_file_lock to_line d4) (\<lambda>d5.
       bind (write_file msg_file_lock msg d5) (\<lambda>d6.
       bind (rename msg_file_lock msg_file d6) (\<lambda>d7.
       bind (chmod msg_file 438 d7) (\<lambda>d8.
       if is_ascii (username e) \<and> is_ascii msg_file
       then Inr (after_last CHR ''/'' msg_file,
                 st\<lparr>parts_count := parts, ucs_field := ucs, disk := d8\<rparr>)
       else Inl UnicodeDecodeError)))))))"

fun write_loop :: "sms_env \<Rightarrow> ustring \<Rightarrow> ustring list \<Rightarrow> sms_state \<Rightarrow> exn + sms_state" where
  \<comment> \<open>the \<open>for mobile in sms['mobiles']\<close> loop; the log messages of lines 180 and 209
      decode \<open>auth.username()\<close> with the ASCII codec, since \<open>mobile\<close> is unicode\<close>
  "write_loop e txt [] st = Inr st"
| "write_loop e txt (mobile # rest) st =
     (if \<not> validate_mobile e mobile then
        if \<not> is_ascii (username e) then Inl UnicodeDecodeError
        else write_loop e txt rest
               (st\<lparr>result := AList.update mobile (JStr (u ''Not valid'')) (result st)\<rparr>)
      else if truthy (access_mobile e mobile) then
        bind (spool_message e txt mobile st) (\<lambda>(message_id, st1).
        bind (set_message_id mobile (JStr (u message_id)) (result st1)) (\<lambda>res.
        write_loop e txt rest (st1\<lparr>result := res\<rparr>)))
      else
        if \<not> is_ascii (username e) then Inl UnicodeDecodeError
        else
          bind (set_message_id mobile (JStr (u ''Forbidden'')) (result st)) (\<lambda>res.
          write_loop e txt rest (st\<lparr>result := res\<rparr>)))"

definition start_state :: "spool \<Rightarrow> sms_state" where
  \<comment> \<open>lines 173 to 176\<close>
  "start_state d =
     \<lparr>result = [(u ''message_id'', JDict [])], parts_count = 1, ucs_field = False, disk = d\<rparr>"

definition write_sms :: "sms_env \<Rightarrow> sms \<Rightarrow> spool \<Rightarrow> exn + ((ustring \<times> jval) list \<times> spool)" where
  "write_sms e s d =
     bind (write_loop e (sms_text s) (sms_mobiles s) (start_state d)) (\<lambda>st.
       Inr (AList.update (u ''parts_count'') (JInt (parts_count st))
              (AList.update (u ''sent_text'') (JStr (sms_text s)) (result st)),
            disk st))"

section \<open>Example environments\<close>

text \<open>
  Concrete inputs, used to run the model. \<open>example_runtime\<close> agrees with Python's \<open>float\<close>
  and \<open>str\<close> on the strings and numbers of the examples.
\<close>

definition CRLF :: string where
  "CRLF = [CHR 0x0D, NL]"

definition example_runtime :: py_runtime where
  \<comment> \<open>the differences of the examples are integers, which no rounding changes\<close>
  "example_runtime =
     \<lparr>py_float = (\<lambda>s. if s = ''1000.0'' then Some (Fin 1000)
                      else if s = ''1500.0'' then Some (Fin 1500)
                      else if s = ''2000.0'' then Some (Fin 2000)
                      else None),
      py_str = (\<lambda>x. if x = 1000 then ''1000.0''
                    else if x = 1500 then ''1500.0''
                    else if x = 2000 then ''2000.0''
                    else ''0.0''),
      py_round = exact_rounding\<rparr>"

lift_definition rounding_near_300 :: rounding is
  "\<lambda>x. if 300 \<le> x \<and> x < 300 + 1 / 2 ^ 45 then 300 else x"
  by (auto simp: mono_def)

definition runtime_near_300 :: py_runtime where
  \<comment> \<open>between 300 and 300 + 2^-45 the doubles are 2^-44 apart and rounding to nearest gives
      300; this runtime rounds so there, and reads the one string of its example\<close>
  "runtime_near_300 =
     \<lparr>py_float = (\<lambda>s. if s = ''4.263256414560601e-14''
                      then Some (Fin (4263256414560601 / 10 ^ 29)) else None),
      py_str = (\<lambda>x. ''0.0''),
      py_round = rounding_near_300\<rparr>"

definition reset_just_after_300 :: reset_env where
  \<comment> \<open>the clock reads the double after 300, which Python prints as 300.00000000000006\<close>
  "reset_just_after_300 =
     \<lparr>time_first = 300 + 1 / 2 ^ 44, write_delay = 0, reset_lock_times_out = False,
      popen_fails = False, create_fails = False, min_reset_interval = None\<rparr>"

definition session_replying :: "string \<Rightarrow> serial_session" where
  \<comment> \<open>the device answers with the given line and then \<open>OK\<close>\<close>
  "session_replying l =
     \<lparr>lock_times_out = False, open_fails = False, write_fails = False,
      replies = [Line (l @ CRLF), Line (''OK'' @ CRLF)]\<rparr>"

definition failed_read_session :: serial_session where
  \<comment> \<open>an echo, the reply, and then a read that raises\<close>
  "failed_read_session =
     \<lparr>lock_times_out = False, open_fails = False, write_fails = False,
      replies = [Line (''AT+CSQ'' @ CRLF), Line (''+CSQ: 15,99'' @ CRLF), ReadFails]\<rparr>"

definition reset_at_2000 :: "bool \<Rightarrow> reset_env" where
  \<comment> \<open>the clock reads 2000, the interval is the default, the script starts and the file
      can be created; the argument says whether the lock acquisition in \<open>perform_reset\<close>
      times out\<close>
  "reset_at_2000 timeout =
     \<lparr>time_first = 2000, write_delay = 0, reset_lock_times_out = timeout,
      popen_fails = False, create_fails = False, min_reset_interval = None\<rparr>"

definition reset_at_2100 :: reset_env where
  "reset_at_2100 =
     \<lparr>time_first = 2100, write_delay = 0, reset_lock_times_out = False,
      popen_fails = False, create_fails = False, min_reset_interval = None\<rparr>"




definition world_last_reset_1000 :: world where
  "world_last_reset_1000 = \<lparr>reset_file = Content ''1000.0'', trace = []\<rparr>"



definition healthy_modem :: health_env where
  "healthy_modem =
     \<lparr>csq_session = session_replying ''+CSQ: 15,99'',
      creg_session = session_replying ''+CREG: 1,1'',
      reset_session = reset_at_2000 False\<rparr>"



definition letters :: "nat \<Rightarrow> nat \<Rightarrow> ustring" where
  \<comment> \<open>the text that repeats one code point \<open>n\<close> times\<close>
  "letters n c = replicate n c"

definition alice :: sms_env where
  "alice =
     \<lparr>username = ''alice'', OUTGOING = ''/var/spool/sms/outgoing'', PREFIX = ''smsgw.'',
      MOBILE_PERMS = None, unicode_digit = (\<lambda>c. False), create_mode = 420\<rparr>"

definition hello_two :: sms where
  \<comment> \<open>the request \<open>{mobiles: ["15551234567", "abc"], text: "hello"}\<close>\<close>
  "hello_two = \<lparr>sms_mobiles = [u ''15551234567'', u ''abc''], sms_text = u ''hello''\<rparr>"

definition hello_named_message_id :: sms where
  \<comment> \<open>the request \<open>{mobiles: ["message_id", "15551234567"], text: "hello"}\<close>\<close>
  "hello_named_message_id =
     \<lparr>sms_mobiles = [u ''message_id'', u ''15551234567''], sms_text = u ''hello''\<rparr>"

definition empty_queue :: spool where
  "empty_queue = \<lparr>files = Map.empty, fs_log = [], tmp_names = [''Hh3yWx'', ''k2Zq9a'']\<rparr>"

section \<open>Properties of the parsers\<close>

lemma py_int_one: "is_digit d \<Longrightarrow> 0 \<le> py_int [d] \<and> py_int [d] \<le> 9"
  by (auto simp: py_int_def is_digit_def Let_def)

lemma py_int_two:
  "is_digit d \<Longrightarrow> is_digit d' \<Longrightarrow> 0 \<le> py_int [d, d'] \<and> py_int [d, d'] \<le> 99"
  by (auto simp: py_int_def is_digit_def Let_def)

lemma digits_then_comma_Some:
  "digits_then_comma k r = Some g \<Longrightarrow> length g = k \<and> list_all is_digit g"
  by (auto simp: digits_then_comma_def split: if_splits)

lemma py_int_digits_1:
  "length g = 1 \<Longrightarrow> list_all is_digit g \<Longrightarrow> 0 \<le> py_int g \<and> py_int g \<le> 9"
  by (cases g) (auto simp: py_int_one)

lemma py_int_digits_2:
  "length g = 2 \<Longrightarrow> list_all is_digit g \<Longrightarrow> 0 \<le> py_int g \<and> py_int g \<le> 99"
proof -
  assume a: "length g = 2" "list_all is_digit g"
  then obtain a b where g: "g = [a, b]"
    by (cases g; cases "tl g") auto
  with a show ?thesis using py_int_two [of a b] by simp
qed

lemma parse_csq_range: "0 \<le> parse_csq s \<and> parse_csq s \<le> 99"
proof (cases "csq_match s")
  case None
  then show ?thesis by (simp add: parse_csq_def)
next
  case (Some g)
  then obtain r where "digits_then_comma 2 r = Some g \<or> digits_then_comma 1 r = Some g"
    by (auto simp: csq_match_def split: option.splits)
  then have "(length g = 2 \<or> length g = 1) \<and> list_all is_digit g"
    using digits_then_comma_Some by blast
  then have "0 \<le> py_int g \<and> py_int g \<le> 99"
    using py_int_digits_1 [of g] py_int_digits_2 [of g] by fastforce
  with Some show ?thesis by (simp add: parse_csq_def)
qed

lemma parse_creg_range: "- 1 \<le> parse_creg s \<and> parse_creg s \<le> 9"
proof (cases "creg_match s")
  case None
  then show ?thesis by (simp add: parse_creg_def)
next
  case (Some g)
  then obtain r where "digits_then_comma 1 r = Some g"
    by (auto simp: creg_match_def split: option.splits if_splits)
  then have "length g = 1 \<and> list_all is_digit g"
    using digits_then_comma_Some by blast
  then have "0 \<le> py_int g \<and> py_int g \<le> 9"
    using py_int_digits_1 [of g] by simp
  with Some show ?thesis by (simp add: parse_creg_def)
qed

text \<open>
  Claim C10. For every input string, \<open>parse_csq\<close> returns an integer from 0 to 99 and
  \<open>parse_creg\<close> an integer from -1 to 9. Both are total functions of the string: no
  branch raises. So a parsed signal quality that is not below 99 is exactly 99.
\<close>

theorem parsers_bounded:
  "0 \<le> parse_csq s \<and> parse_csq s \<le> 99 \<and>
   - 1 \<le> parse_creg t \<and> parse_creg t \<le> 9 \<and>
   (parse_csq s < 99 \<or> parse_csq s = 99)"
  using parse_csq_range [of s] parse_creg_range [of t] by auto

section \<open>Properties of the modem channel\<close>

lemma dialogue_only_serial: "dialogue s = Inl e \<Longrightarrow> e = SerialException"
  by (auto simp: dialogue_def split: if_splits sum.splits prod.splits
      elim!: readline.elims)

lemma device_raises_dialogue: "device_raises s \<Longrightarrow> dialogue s = Inl SerialException"
  unfolding device_raises_def dialogue_def
  by (cases "replies s" rule: readline.cases)
     (auto split: list.splits read_result.splits sum.splits prod.splits elim!: readline.elims)

text \<open>
  Claim C8. In every session of the signal-quality or of the registration query in which
  the lock acquisition times out or a device operation raises
  \<open>serial.SerialException\<close>, the function returns its pair of a sentinel and \<open>False\<close>
  (\<open>0\<close> for \<open>get_csq\<close>, \<open>None\<close> for \<open>get_creg\<close>): the exception does not reach the caller.
\<close>

theorem channel_failures_give_sentinel:
  assumes "lock_times_out s \<or> device_raises s"
  shows "get_csq s = Inr (PyInt 0, PyBool False) \<and> get_creg s = Inr (PyNone, PyBool False)"
proof (cases "lock_times_out s")
  case True
  then show ?thesis by (simp add: get_csq_def get_creg_def)
next
  case False
  with assms have "dialogue s = Inl SerialException"
    by (simp add: device_raises_dialogue)
  with False show ?thesis by (simp add: get_csq_def get_creg_def)
qed

theorem channel_failures_give_sentinel_witness:
  "(lock_times_out failed_read_session \<or> device_raises failed_read_session) \<and>
   get_csq failed_read_session = Inr (PyInt 0, PyBool False) \<and>
   get_creg failed_read_session = Inr (PyNone, PyBool False)"
proof -
  have h: "lock_times_out failed_read_session \<or> device_raises failed_read_session"
    by (simp add: failed_read_session_def device_raises_def startswith_def CRLF_def)
  show ?thesis using h channel_failures_give_sentinel [OF h] by simp
qed

lemma get_csq_total: "\<exists>r. get_csq s = Inr r"
  by (auto simp: get_csq_def split: sum.splits dest: dialogue_only_serial)

lemma get_creg_total: "\<exists>r. get_creg s = Inr r"
  by (auto simp: get_creg_def split: sum.splits dest: dialogue_only_serial)

section \<open>Evaluation of the examples\<close>

lemma get_csq_replying:
  "\<not> startswith (l @ CRLF) ''AT'' \<Longrightarrow> get_csq (session_replying l) = Inr (PyStr (l @ CRLF), PyStr ''OK'')"
  by (simp add: get_csq_def dialogue_def session_replying_def CRLF_def NL_def strip_def is_space_def)

lemma get_creg_replying:
  "\<not> startswith (l @ CRLF) ''AT'' \<Longrightarrow> get_creg (session_replying l) = Inr (PyStr (l @ CRLF), PyStr ''OK'')"
  by (simp add: get_creg_def dialogue_def session_replying_def CRLF_def NL_def strip_def is_space_def)

lemma parse_csq_15: "parse_csq (''+CSQ: 15,99'' @ CRLF) = 15"
  by (simp add: parse_csq_def csq_match_def digits_then_comma_def is_digit_def py_int_def)


lemma parse_creg_1: "parse_creg (''+CREG: 1,1'' @ CRLF) = 1"
  by (simp add: parse_creg_def creg_match_def digits_then_comma_def is_digit_def py_int_def)

text \<open>
  Claim C1. The modem answers the signal query with \<open>+CSQ: 15,99\<close> and \<open>OK\<close> and the
  registration query with \<open>+CREG: 1,1\<close> and \<open>OK\<close>: both channels are ok, the parsed
  signal quality 15 lies in [10,99) and the parsed registration value is 1. Then
  \<open>modem_status\<close> reaches the end of the function and returns Python's \<open>None\<close>: no
  response with status 200, and no response at all.
\<close>

theorem healthy_modem_no_response:
  "get_csq (csq_session healthy_modem) = Inr (PyStr (''+CSQ: 15,99'' @ CRLF), PyStr ''OK'') \<and>
   parse_csq (''+CSQ: 15,99'' @ CRLF) = 15 \<and>
   get_creg (creg_session healthy_modem) = Inr (PyStr (''+CREG: 1,1'' @ CRLF), PyStr ''OK'') \<and>
   parse_creg (''+CREG: 1,1'' @ CRLF) = 1 \<and>
   modem_status example_runtime healthy_modem w = (Inr None, w)"
  by (simp add: modem_status_def healthy_modem_def get_csq_replying get_creg_replying
      parse_csq_15 [simplified] parse_creg_1 [simplified] startswith_def)

section \<open>Properties of the reset governor\<close>



lemma persisted_last_opened:
  "get_modem_reset_file e f = Inr opened \<Longrightarrow> read_last rt opened = persisted_last rt f"
  by (auto simp: get_modem_reset_file_def persisted_last_def split: file_state.splits if_splits)

lemma opened_content:
  "get_modem_reset_file e f = Inr opened \<Longrightarrow>
   Content (fst opened) = (case f of Missing \<Rightarrow> Content [] | Content c \<Rightarrow> Content c)"
  by (auto simp: get_modem_reset_file_def split: file_state.splits if_splits)

lemma opens:
  assumes "reset_file w \<noteq> Missing \<or> \<not> create_fails e"
  shows "\<exists>opened. get_modem_reset_file e (reset_file w) = Inr opened"
  using assms by (auto simp: get_modem_reset_file_def split: file_state.splits)


lemma reset_modem_not_due:
  assumes "reset_file w \<noteq> Missing \<or> \<not> create_fails e"
    and "\<not> elapsed_exceeds rt (time_first e) (persisted_last rt (reset_file w))
            (minimum_reset_interval e)"
  shows "reset_modem rt e w =
           (None, \<lparr>reset_file = (case reset_file w of Missing \<Rightarrow> Content [] | Content c \<Rightarrow> Content c),
                   trace = trace w @ [ResetModem]\<rparr>)"
proof -
  obtain opened where o: "get_modem_reset_file e (reset_file w) = Inr opened"
    using opens [OF assms(1)] by blast
  show ?thesis
    using assms(2) persisted_last_opened [OF o, of rt] opened_content [OF o]
    by (simp add: reset_modem_def o Let_def)
qed

lemma reset_modem_due:
  assumes "reset_file w \<noteq> Missing \<or> \<not> create_fails e"
    and "elapsed_exceeds rt (time_first e) (persisted_last rt (reset_file w))
            (minimum_reset_interval e)"
  shows "reset_modem rt e w =
           (if reset_lock_times_out e
            then (None, \<lparr>reset_file = Content (py_str rt (time_second e)),
                         trace = trace w @ [ResetModem, PerformReset, LockWarning]\<rparr>)
            else if popen_fails e
            then (Some OSError,
                  \<lparr>reset_file = (case reset_file w of Missing \<Rightarrow> Content [] | Content c \<Rightarrow> Content c),
                   trace = trace w @ [ResetModem, PerformReset]\<rparr>)
            else (None, \<lparr>reset_file = Content (py_str rt (time_second e)),
                         trace = trace w @ [ResetModem, PerformReset, Popen RESET_MODEM]\<rparr>))"
proof -
  obtain opened where o: "get_modem_reset_file e (reset_file w) = Inr opened"
    using opens [OF assms(1)] by blast
  show ?thesis
    using assms(2) persisted_last_opened [OF o, of rt] opened_content [OF o]
    by (simp add: reset_modem_def perform_reset_def o Let_def)
qed


lemma strip_plain [simp]:
  "strip ''1000.0'' = ''1000.0''" "strip ''1500.0'' = ''1500.0''" "strip ''2000.0'' = ''2000.0''"
  by (simp_all add: strip_def is_space_def)

lemma persisted_last_1000: "persisted_last example_runtime (Content ''1000.0'') = Fin 1000"
  by (simp add: persisted_last_def read_last_def example_runtime_def)


lemma persisted_last_2000: "persisted_last example_runtime (Content ''2000.0'') = Fin 2000"
  by (simp add: persisted_last_def read_last_def example_runtime_def)


lemma exceeds_example: "round_with (py_round example_runtime) x = x"
  by (simp add: example_runtime_def exact_rounding.rep_eq)

text \<open>
  The comparison follows the rounded difference, not the exact one: with the file at
  \<open>4.263256414560601e-14\<close> and the clock at the double after 300, the exact difference
  is above 300 and its double is 300, so no reset is due.
\<close>

lemma rounded_difference_not_due:
  "time_first reset_just_after_300 - 4263256414560601 / 10 ^ 29 > 300 \<and>
   persisted_last runtime_near_300 (Content ''4.263256414560601e-14'') =
     Fin (4263256414560601 / 10 ^ 29) \<and>
   \<not> elapsed_exceeds runtime_near_300 (time_first reset_just_after_300)
       (persisted_last runtime_near_300 (Content ''4.263256414560601e-14''))
       (minimum_reset_interval reset_just_after_300)"
proof -
  have s: "strip ''4.263256414560601e-14'' = ''4.263256414560601e-14''"
    by (simp add: strip_def is_space_def)
  have p: "persisted_last runtime_near_300 (Content ''4.263256414560601e-14'') =
     Fin (4263256414560601 / 10 ^ 29)"
    by (simp add: persisted_last_def read_last_def s runtime_near_300_def)
  have r: "round_with (py_round runtime_near_300)
             (time_first reset_just_after_300 - 4263256414560601 / 10 ^ 29) = 300"
    by (simp add: runtime_near_300_def rounding_near_300.rep_eq reset_just_after_300_def)
  have "time_first reset_just_after_300 - 4263256414560601 / 10 ^ 29 > 300"
    by (simp add: reset_just_after_300_def)
  with p r show ?thesis
    by (simp add: minimum_reset_interval_def reset_just_after_300_def)
qed

text \<open>
  Claim C2. The last reset was at 1000, the clock reads 2000 and the interval is the
  default 300, so a reset is due; the lock acquisition in \<open>perform_reset\<close> times out and
  no reset script is started. The persisted timestamp does not stay at 1000:
  \<open>reset_modem\<close> writes 2000 over it. The next run, at 2100, reads 2000, finds the
  interval not elapsed and does not enter \<open>perform_reset\<close>: the missed reset is not
  attempted again.
\<close>

theorem lock_timeout_stamps_missed_reset:
  "elapsed_exceeds example_runtime (time_first (reset_at_2000 True))
     (persisted_last example_runtime (reset_file world_last_reset_1000))
     (minimum_reset_interval (reset_at_2000 True)) \<and>
   reset_lock_times_out (reset_at_2000 True) \<and>
   reset_file world_last_reset_1000 = Content ''1000.0'' \<and>
   reset_modem example_runtime (reset_at_2000 True) world_last_reset_1000 =
     (None, \<lparr>reset_file = Content ''2000.0'', trace = [ResetModem, PerformReset, LockWarning]\<rparr>) \<and>
   reset_modem example_runtime reset_at_2100
       \<lparr>reset_file = Content ''2000.0'', trace = [ResetModem, PerformReset, LockWarning]\<rparr> =
     (None, \<lparr>reset_file = Content ''2000.0'',
             trace = [ResetModem, PerformReset, LockWarning, ResetModem]\<rparr>)"
proof -
  have o: "reset_file world_last_reset_1000 \<noteq> Missing \<or> \<not> create_fails (reset_at_2000 True)"
    by (simp add: world_last_reset_1000_def)
  have due: "elapsed_exceeds example_runtime (time_first (reset_at_2000 True))
     (persisted_last example_runtime (reset_file world_last_reset_1000))
     (minimum_reset_interval (reset_at_2000 True))"
    by (simp add: reset_at_2000_def world_last_reset_1000_def persisted_last_1000
        minimum_reset_interval_def exceeds_example)
  have first: "reset_modem example_runtime (reset_at_2000 True) world_last_reset_1000 =
     (None, \<lparr>reset_file = Content ''2000.0'', trace = [ResetModem, PerformReset, LockWarning]\<rparr>)"
    using reset_modem_due [OF o due]
    by (simp add: reset_at_2000_def world_last_reset_1000_def example_runtime_def time_second_def)
  have o2: "reset_file \<lparr>reset_file = Content ''2000.0'',
                trace = [ResetModem, PerformReset, LockWarning]\<rparr> \<noteq> Missing \<or>
            \<not> create_fails reset_at_2100"
    by simp
  have cool: "\<not> elapsed_exceeds example_runtime (time_first reset_at_2100)
     (persisted_last example_runtime
        (reset_file \<lparr>reset_file = Content ''2000.0'', trace = [ResetModem, PerformReset, LockWarning]\<rparr>))
     (minimum_reset_interval reset_at_2100)"
    by (simp add: reset_at_2100_def persisted_last_2000 minimum_reset_interval_def exceeds_example)
  from reset_modem_not_due [OF o2 cool] have second:
    "reset_modem example_runtime reset_at_2100
       \<lparr>reset_file = Content ''2000.0'', trace = [ResetModem, PerformReset, LockWarning]\<rparr> =
     (None, \<lparr>reset_file = Content ''2000.0'',
             trace = [ResetModem, PerformReset, LockWarning, ResetModem]\<rparr>)"
    by simp
  show ?thesis using due first second
    by (simp add: reset_at_2000_def world_last_reset_1000_def)
qed







section \<open>Properties of the health check\<close>



lemma reset_modem_raised:
  "fst (reset_modem rt e w) = Some x \<Longrightarrow> x = IOError \<or> x = OSError"
  by (auto simp: reset_modem_def perform_reset_def get_modem_reset_file_def Let_def
      split: sum.splits file_state.splits if_splits)

lemma modem_status_after_csq:
  assumes "get_csq (csq_session e) = Inr (PyStr csq, ok)"
    and "truthy ok"
    and "\<not> (10 \<le> parse_csq csq \<and> parse_csq csq < 99)"
  shows "modem_status rt e w =
           (if parse_csq csq = 99
            then (case fst (reset_modem rt (reset_session e) w) of
                    Some x \<Rightarrow> Inl x
                  | None \<Rightarrow> Inr (Some ([(''error'', ''modem not connected or weak signal'')], 500)),
                  snd (reset_modem rt (reset_session e) w))
            else (Inr (Some ([(''error'', ''modem not connected or weak signal'')], 500)), w))"
  using assms by (auto simp: modem_status_def Let_def split: prod.splits option.splits)




section \<open>What the health check can raise\<close>

text \<open>
  Neither query function raises: whatever the session does, the caller gets a pair.
\<close>

theorem channel_never_raises:
  "(\<exists>r. get_csq s = Inr r) \<and> (\<exists>r. get_creg s = Inr r)"
  using get_csq_total [of s] get_creg_total [of s] by simp

lemma dialogue_Inr: "dialogue s = Inr (c, ok) \<Longrightarrow> \<exists>l. c = PyStr l"
  by (auto simp: dialogue_def split: if_splits sum.splits prod.splits)

lemma get_csq_ok_is_line:
  assumes "get_csq s = Inr (c, ok)" and "truthy ok"
  shows "\<exists>l. c = PyStr l"
  using assms
  by (auto simp: get_csq_def split: if_splits sum.splits dest: dialogue_Inr)

lemma get_creg_ok_is_line:
  assumes "get_creg s = Inr (c, ok)" and "truthy ok"
  shows "\<exists>l. c = PyStr l"
  using assms
  by (auto simp: get_creg_def split: if_splits sum.splits dest: dialogue_Inr)

text \<open>
  \<open>modem_status\<close> raises only what \<open>reset_modem\<close> raises: the parsers are only applied
  to lines read from the device, never to a sentinel.
\<close>

theorem modem_status_raises_from_reset:
  assumes "fst (modem_status rt e w) = Inl x"
  shows "x = IOError \<or> x = OSError"
proof -
  obtain c ok where csq: "get_csq (csq_session e) = Inr (c, ok)"
    using get_csq_total [of "csq_session e"] by auto
  obtain c' ok' where creg: "get_creg (creg_session e) = Inr (c', ok')"
    using get_creg_total [of "creg_session e"] by auto
  show ?thesis
  proof (cases "truthy ok")
    case False
    with csq assms show ?thesis by (simp add: modem_status_def)
  next
    case True
    with csq obtain l where l: "c = PyStr l"
      using get_csq_ok_is_line by blast
    show ?thesis
    proof (cases "10 \<le> parse_csq l \<and> parse_csq l < 99")
      case False
      from modem_status_after_csq [OF csq [unfolded l] True False, of rt w] assms
      show ?thesis
        by (auto split: if_splits option.splits dest: reset_modem_raised)
    next
      case range: True
      show ?thesis
      proof (cases "truthy ok'")
        case False
        with csq creg l True range assms show ?thesis
          by (simp add: modem_status_def Let_def)
      next
        case ok2: True
        with creg obtain l' where "c' = PyStr l'"
          using get_creg_ok_is_line by blast
        with csq creg l True ok2 range assms show ?thesis
          by (simp add: modem_status_def Let_def split: if_splits)
      qed
    qed
  qed
qed

section \<open>Properties of the encoder\<close>

lemma parts_ceiling_gen:
  fixes L n :: int
  assumes "0 < n"
  shows "L div n + (if L mod n > 0 then 1 else 0) = \<lceil>real_of_int L / real_of_int n\<rceil>"
proof -
  have "\<lceil>real_of_int L / real_of_int n\<rceil> = - (- L div n)"
    by (rule ceiling_divide_eq_div)
  also have "\<dots> = L div n + (if L mod n > 0 then 1 else 0)"
  proof -
    have "L mod n \<noteq> 0 \<Longrightarrow> 0 < L mod n"
      using pos_mod_sign [OF assms, of L] by linarith
    with assms show ?thesis
      by (auto simp: zdiv_zminus1_eq_if)
  qed
  finally show ?thesis by simp
qed

lemma parts_ceiling:
  fixes L :: int
  shows "L div 153 + (if L mod 153 > 0 then 1 else 0) = \<lceil>real_of_int L / 153\<rceil>"
    and "L div 67 + (if L mod 67 > 0 then 1 else 0) = \<lceil>real_of_int L / 67\<rceil>"
  using parts_ceiling_gen [of 153 L] parts_ceiling_gen [of 67 L] by simp_all

lemma encode_text_ascii:
  assumes "list_all (\<lambda>c. c < 128) txt"
  shows "encode_text txt f p =
           (map char_of txt, f,
            if int (length txt) > 160
            then int (length txt) div 153 + (if int (length txt) mod 153 > 0 then 1 else 0)
            else p)"
  using assms by (simp add: encode_text_def encode_us_ascii_def Let_def)

lemma encode_text_ucs:
  assumes "\<not> list_all (\<lambda>c. c < 128) txt"
  shows "encode_text txt f p =
           (encode_utf_16_be txt, True,
            if int (length txt) > 70
            then int (length txt) div 67 + (if int (length txt) mod 67 > 0 then 1 else 0)
            else p)"
  using assms by (simp add: encode_text_def encode_us_ascii_def Let_def)

text \<open>
  Claim C3. At the start of \<open>write_sms\<close> (\<open>ucs_field\<close> false, \<open>parts_count\<close> 1), the
  encoding block keeps the default alphabet for a text whose code points are all below
  128 and computes 1 part for a length up to 160 and the ceiling of length/153 above
  it; for a text with a code point from 128 on it sets \<open>ucs_field\<close>, encodes in UTF-16
  and computes 1 part for a length up to 70 and the ceiling of length/67 above it.
\<close>

theorem encoder_alphabet_and_parts:
  "(list_all (\<lambda>c. c < 128) txt \<longrightarrow>
      encode_text txt False 1 =
        (map char_of txt, False,
         if length txt \<le> 160 then 1 else \<lceil>real (length txt) / 153\<rceil>)) \<and>
   (\<not> list_all (\<lambda>c. c < 128) txt \<longrightarrow>
      encode_text txt False 1 =
        (encode_utf_16_be txt, True,
         if length txt \<le> 70 then 1 else \<lceil>real (length txt) / 67\<rceil>))"
proof (intro conjI impI)
  assume a: "list_all (\<lambda>c. c < 128) txt"
  have c: "int (length txt) div 153 + (if int (length txt) mod 153 > 0 then 1 else 0) =
             \<lceil>real (length txt) / 153\<rceil>"
    using parts_ceiling(1) [of "int (length txt)"] by (simp only: of_int_of_nat_eq)
  show "encode_text txt False 1 =
        (map char_of txt, False,
         if length txt \<le> 160 then 1 else \<lceil>real (length txt) / 153\<rceil>)"
    unfolding encode_text_ascii [OF a] c by (simp add: not_le)
next
  assume a: "\<not> list_all (\<lambda>c. c < 128) txt"
  have c: "int (length txt) div 67 + (if int (length txt) mod 67 > 0 then 1 else 0) =
             \<lceil>real (length txt) / 67\<rceil>"
    using parts_ceiling(2) [of "int (length txt)"] by (simp only: of_int_of_nat_eq)
  show "encode_text txt False 1 =
        (encode_utf_16_be txt, True,
         if length txt \<le> 70 then 1 else \<lceil>real (length txt) / 67\<rceil>)"
    unfolding encode_text_ucs [OF a] c by (simp add: not_le)
qed

lemma length_letters: "length (letters n c) = n"
  by (simp add: letters_def)

lemma list_all_letters: "list_all (\<lambda>c. c < 128) (letters n c) = (n = 0 \<or> c < 128)"
  by (auto simp: letters_def list_all_iff)

theorem encoder_alphabet_and_parts_witness:
  "list_all (\<lambda>c. c < 128) (letters 200 97) \<and>
   encode_text (letters 200 97) False 1 = (map char_of (letters 200 97), False, 2) \<and>
   \<not> list_all (\<lambda>c. c < 128) (letters 100 1046) \<and>
   encode_text (letters 100 1046) False 1 = (encode_utf_16_be (letters 100 1046), True, 2)"
proof -
  have a: "list_all (\<lambda>c. c < 128) (letters 200 97)"
    by (simp add: list_all_letters)
  have b: "\<not> list_all (\<lambda>c. c < 128) (letters 100 1046)"
    by (simp add: list_all_letters)
  from encoder_alphabet_and_parts [of "letters 200 97"] a
  have "encode_text (letters 200 97) False 1 = (map char_of (letters 200 97), False, 2)"
    by (simp add: length_letters)
  moreover from encoder_alphabet_and_parts [of "letters 100 1046"] b
  have "encode_text (letters 100 1046) False 1 =
          (encode_utf_16_be (letters 100 1046), True, 2)"
    by (simp add: length_letters)
  ultimately show ?thesis using a b by blast
qed

text \<open>
  Claim C4, as stated, fails. A text of 307 letters \<open>a\<close> is 7-bit, its length lies in
  (160, 313], and the block computes 3 parts: 307 = 2 * 153 + 1.
\<close>

theorem two_parts_up_to_313_counterexample:
  "list_all (\<lambda>c. c < 128) (letters 307 97) \<and>
   160 < length (letters 307 97) \<and>
   length (letters 307 97) \<le> 313 \<and>
   snd (snd (encode_text (letters 307 97) False 1)) = 3"
proof -
  have a: "list_all (\<lambda>c. c < 128) (letters 307 97)"
    by (simp add: list_all_letters)
  show ?thesis
    using a encode_text_ascii [OF a, of False 1] by (simp add: length_letters)
qed

text \<open>
  Claim C4, amended. For every 7-bit text whose length lies in (160, 306] the block
  computes 2 parts, and for a length in (306, 313] it computes 3, whatever
  \<open>ucs_field\<close> and \<open>parts_count\<close> were before.
\<close>

theorem two_parts_up_to_306:
  assumes "list_all (\<lambda>c. c < 128) txt"
    and "160 < length txt"
    and "length txt \<le> 313"
  shows "snd (snd (encode_text txt f p)) = (if length txt \<le> 306 then 2 else 3)"
proof -
  have "\<lceil>real_of_int (int (length txt)) / 153\<rceil> = (if length txt \<le> 306 then 2 else 3)"
    using assms(2,3) by (simp add: ceiling_eq_iff)
  then have "int (length txt) div 153 + (if int (length txt) mod 153 > 0 then 1 else 0) =
      (if length txt \<le> 306 then 2 else 3)"
    by (simp only: parts_ceiling(1))
  with assms(2) show ?thesis
    using encode_text_ascii [OF assms(1), of f p] by simp
qed

theorem two_parts_up_to_306_witness:
  "list_all (\<lambda>c. c < 128) (letters 306 97) \<and>
   160 < length (letters 306 97) \<and>
   length (letters 306 97) \<le> 313 \<and>
   snd (snd (encode_text (letters 306 97) False 1)) = 2"
proof -
  have a: "list_all (\<lambda>c. c < 128) (letters 306 97)"
    by (simp add: list_all_letters)
  have b: "160 < length (letters 306 97)"
    by (simp add: length_letters)
  have c: "length (letters 306 97) \<le> 313"
    by (simp add: length_letters)
  show ?thesis using a b c two_parts_up_to_306 [OF a b c, of False 1]
    by (simp add: length_letters)
qed

section \<open>Properties of the spool writer\<close>

lemma map_char_of_u: "map char_of (u s) = s"
  by (simp add: u_def comp_def)

lemma to_line_ascii:
  "encode_us_ascii (u ''To: '' @ mobile @ u [NL, NL]) = Some l \<Longrightarrow>
   l = ''To: '' @ map char_of mobile @ [NL, NL]"
  by (auto simp: encode_us_ascii_def map_char_of_u split: if_splits)

lemma mkstemp_Inr:
  assumes "mkstemp dir pre suf d = Inr (p, d')"
  shows "\<exists>n ns. n \<in> set (tmp_names d) \<and> p = tmp_path dir pre suf n \<and> files d p = None \<and>
           d' = d\<lparr>files := (files d)(p \<mapsto> \<lparr>content = [], mode = 384\<rparr>),
                  fs_log := fs_log d @ [Mkstemp p],
                  tmp_names := ns\<rparr>"
proof (cases "dropWhile (\<lambda>n. files d (tmp_path dir pre suf n) \<noteq> None) (tmp_names d)")
  case Nil
  from assms have False
    unfolding mkstemp_def Nil by simp
  then show ?thesis ..
next
  case (Cons n ns)
  have "n \<in> set (dropWhile (\<lambda>n. files d (tmp_path dir pre suf n) \<noteq> None) (tmp_names d))"
    by (simp only: Cons list.set_intros)
  then have n: "n \<in> set (tmp_names d)"
    by (rule set_dropWhileD)
  from dropWhile_eq_Cons_conv [THEN iffD1, OF Cons]
  have "\<not> (files d (tmp_path dir pre suf n) \<noteq> None)"
    by (rule conjunct2)
  then have fresh: "files d (tmp_path dir pre suf n) = None"
    by simp
  from assms have p: "p = tmp_path dir pre suf n"
    unfolding mkstemp_def Cons by (simp add: Let_def)
  from assms have d': "d' = d\<lparr>files := (files d)(p \<mapsto> \<lparr>content = [], mode = 384\<rparr>),
                  fs_log := fs_log d @ [Mkstemp p],
                  tmp_names := ns\<rparr>"
    unfolding mkstemp_def Cons by (auto simp: Let_def)
  show ?thesis
    using n fresh p d' by (intro exI [of _ n] exI [of _ ns]) simp
qed

lemma before_first_shorter:
  assumes "sep \<noteq> []"
  shows "length (before_first sep (xs @ sep @ zs)) \<le> length xs"
proof (induction xs)
  case Nil
  from assms obtain c cs where "sep = c # cs" by (cases sep) auto
  then show ?case by (simp add: startswith_def)
next
  case (Cons x xs)
  then show ?case by simp
qed

lemma tmp_path_ends: "\<exists>xs. tmp_path dir pre suf n = xs @ suf @ []"
  by (auto simp: tmp_path_def path_join_def)

lemma final_differs:
  "before_first ''.LOCK'' (tmp_path dir pre ''.LOCK'' n) \<noteq> tmp_path dir pre ''.LOCK'' n"
proof -
  obtain xs where p: "tmp_path dir pre ''.LOCK'' n = xs @ ''.LOCK'' @ []"
    using tmp_path_ends by blast
  have "length (before_first ''.LOCK'' (xs @ ''.LOCK'' @ [])) \<le> length xs"
    by (rule before_first_shorter) simp
  then have "length (before_first ''.LOCK'' (tmp_path dir pre ''.LOCK'' n)) <
             length (tmp_path dir pre ''.LOCK'' n)"
    by (simp only: p) simp
  then show ?thesis by auto
qed

lemma encode_text_components:
  assumes "\<not> f \<or> encode_us_ascii txt = None"
  shows "fst (encode_text txt f p) =
           (case encode_us_ascii txt of Some b \<Rightarrow> b | None \<Rightarrow> encode_utf_16_be txt) \<and>
         fst (snd (encode_text txt f p)) = (encode_us_ascii txt = None)"
  using assms by (auto simp: encode_text_def Let_def split: option.splits)


lemma spool_message_writes:
  assumes ok: "spool_message e txt mobile st = Inr (message_id, st')"
    and inv: "\<not> ucs_field st \<or> encode_us_ascii txt = None"
  shows "\<exists>name.
           let tmp = tmp_path (OUTGOING e) (PREFIX e) ''.LOCK'' name;
               final = before_first ''.LOCK'' tmp;
               body = (case encode_us_ascii txt of Some b \<Rightarrow> b | None \<Rightarrow> encode_utf_16_be txt);
               from_line = ''From: '' @ username e @ [NL];
               alphabet = (if encode_us_ascii txt = None then [''Alphabet: UCS'' @ [NL]] else []);
               to_line = ''To: '' @ map char_of mobile @ [NL, NL]
           in name \<in> set (tmp_names (disk st)) \<and>
              files (disk st) tmp = None \<and>
              fs_log (disk st') =
                fs_log (disk st) @ [Mkstemp tmp, OpenW tmp, Write tmp from_line] @
                map (Write tmp) alphabet @
                [Write tmp to_line, Write tmp body, Rename tmp final, Chmod final 438] \<and>
              files (disk st') tmp = None \<and>
              files (disk st') final =
                Some \<lparr>content = from_line @ concat alphabet @ to_line @ body, mode = 438\<rparr> \<and>
              message_id = after_last CHR ''/'' final"
proof -
  obtain p d1 where mk: "mkstemp (OUTGOING e) (PREFIX e) ''.LOCK'' (disk st) = Inr (p, d1)"
    using ok by (cases "mkstemp (OUTGOING e) (PREFIX e) ''.LOCK'' (disk st)")
      (auto simp: spool_message_def bind_def)
  from mkstemp_Inr [OF mk] obtain n ns where
    n: "n \<in> set (tmp_names (disk st))" and
    p: "p = tmp_path (OUTGOING e) (PREFIX e) ''.LOCK'' n" and
    fresh: "files (disk st) p = None" and
    d1: "d1 = (disk st)\<lparr>files := (files (disk st))(p \<mapsto> \<lparr>content = [], mode = 384\<rparr>),
                        fs_log := fs_log (disk st) @ [Mkstemp p],
                        tmp_names := ns\<rparr>"
    by blast
  have differs: "before_first ''.LOCK'' p \<noteq> p"
    unfolding p by (rule final_differs)
  obtain msg ucs parts where enc: "encode_text txt (ucs_field st) (parts_count st) = (msg, ucs, parts)"
    by (cases "encode_text txt (ucs_field st) (parts_count st)") auto
  from encode_text_components [OF inv, of "parts_count st"] enc
  have msg: "msg = (case encode_us_ascii txt of Some b \<Rightarrow> b | None \<Rightarrow> encode_utf_16_be txt)"
    and ucs: "ucs = (encode_us_ascii txt = None)"
    by simp_all
  obtain to_line where to: "encode_us_ascii (u ''To: '' @ mobile @ u [NL, NL]) = Some to_line"
    using ok
    by (cases "encode_us_ascii (u ''To: '' @ mobile @ u [NL, NL])")
      (auto simp: spool_message_def bind_def mk enc d1 open_w_def write_file_def split: if_splits)
  have to_line: "to_line = ''To: '' @ map char_of mobile @ [NL, NL]"
    using to by (rule to_line_ascii)
  from ok have
    "fs_log (disk st') =
       fs_log (disk st) @ [Mkstemp p, OpenW p, Write p (''From: '' @ username e @ [NL])] @
       map (Write p) (if ucs then [''Alphabet: UCS'' @ [NL]] else []) @
       [Write p to_line, Write p msg, Rename p (before_first ''.LOCK'' p),
        Chmod (before_first ''.LOCK'' p) 438] \<and>
     files (disk st') p = None \<and>
     files (disk st') (before_first ''.LOCK'' p) =
       Some \<lparr>content = ''From: '' @ username e @ [NL] @
                       concat (if ucs then [''Alphabet: UCS'' @ [NL]] else []) @ to_line @ msg,
             mode = 438\<rparr> \<and>
     message_id = after_last CHR ''/'' (before_first ''.LOCK'' p)"
    using differs
    by (auto simp: spool_message_def bind_def mk enc to d1 open_w_def write_file_def
        rename_def chmod_def Let_def split: if_splits)
  with n fresh show ?thesis
    unfolding Let_def p [symmetric] msg [symmetric] ucs [symmetric] to_line [symmetric]
    by (intro exI [of _ n]) (simp add: p)
qed

section \<open>Evaluation of \<open>write_sms\<close>\<close>

text \<open>
  Claim C5. The request \<open>{mobiles: ["15551234567", "abc"], text: "hello"}\<close> of the spec's
  example is answered with a dictionary in which \<open>Not valid\<close> stands under the top-level
  key \<open>abc\<close>, beside \<open>message_id\<close>, \<open>sent_text\<close> and \<open>parts_count\<close>; the \<open>message_id\<close>
  map holds the valid destination only. And for the destinations \<open>message_id\<close> and
  \<open>15551234567\<close> the first, invalid one replaces the \<open>message_id\<close> map by the string
  \<open>Not valid\<close>, and storing the outcome of the second raises \<open>TypeError\<close>.
\<close>

theorem not_valid_outside_message_id:
  "map_sum id fst (write_sms alice hello_two empty_queue) =
     Inr [(u ''message_id'', JDict [(u ''15551234567'', JStr (u ''smsgw.Hh3yWx''))]),
          (u ''abc'', JStr (u ''Not valid'')),
          (u ''sent_text'', JStr (u ''hello'')),
          (u ''parts_count'', JInt 1)] \<and>
   map_sum id fst (write_sms alice hello_named_message_id empty_queue) = Inl TypeError"
  by code_simp

section \<open>Properties of the loop of \<open>write_sms\<close>\<close>

lemma spool_message_state:
  assumes "spool_message e txt mobile st = Inr (mid, st1)"
  shows "result st1 = result st \<and>
         ucs_field st1 = fst (snd (encode_text txt (ucs_field st) (parts_count st))) \<and>
         parts_count st1 = snd (snd (encode_text txt (ucs_field st) (parts_count st)))"
  using assms
  by (auto simp: spool_message_def bind_def Let_def split: sum.splits prod.splits if_splits)

lemma encode_text_again:
  assumes "(f, p) = (False, 1) \<or> (f, p) = snd (encode_text txt False 1)"
  shows "snd (encode_text txt f p) = snd (encode_text txt False 1)"
  using assms by (auto simp: encode_text_def Let_def split: option.splits if_splits)


lemma write_loop_encoder_state:
  assumes "write_loop e txt ms st = Inr st'"
    and "(ucs_field st, parts_count st) = (False, 1) \<or>
         (ucs_field st, parts_count st) = snd (encode_text txt False 1)"
  shows "(ucs_field st', parts_count st') =
           (if \<exists>m\<in>set ms. validate_mobile e m \<and> truthy (access_mobile e m)
            then snd (encode_text txt False 1)
            else (ucs_field st, parts_count st))"
  using assms
proof (induction ms arbitrary: st)
  case Nil
  then show ?case by simp
next
  case (Cons mobile rest)
  show ?case
  proof (cases "validate_mobile e mobile \<and> truthy (access_mobile e mobile)")
    case True
    with Cons.prems(1) obtain mid st1 res where
      sp: "spool_message e txt mobile st = Inr (mid, st1)" and
      rest: "write_loop e txt rest (st1\<lparr>result := res\<rparr>) = Inr st'"
      by (auto simp: bind_def split: sum.splits)
    from spool_message_state [OF sp] encode_text_again [OF Cons.prems(2)]
    have st1: "(ucs_field st1, parts_count st1) = snd (encode_text txt False 1)"
      by (metis prod.collapse)
    then have "(ucs_field (st1\<lparr>result := res\<rparr>), parts_count (st1\<lparr>result := res\<rparr>)) = (False, 1) \<or>
               (ucs_field (st1\<lparr>result := res\<rparr>), parts_count (st1\<lparr>result := res\<rparr>)) =
                 snd (encode_text txt False 1)"
      by simp
    from Cons.IH [OF rest this] st1 True show ?thesis
      by (auto split: if_splits)
  next
    case False
    with Cons.prems(1) obtain res where
      rest: "write_loop e txt rest (st\<lparr>result := res\<rparr>) = Inr st'"
      by (auto simp: bind_def split: sum.splits if_splits)
    from Cons.prems(2)
    have "(ucs_field (st\<lparr>result := res\<rparr>), parts_count (st\<lparr>result := res\<rparr>)) = (False, 1) \<or>
          (ucs_field (st\<lparr>result := res\<rparr>), parts_count (st\<lparr>result := res\<rparr>)) =
            snd (encode_text txt False 1)"
      by simp
    from Cons.IH [OF rest this] False show ?thesis
      by (auto split: if_splits)
  qed
qed

lemma write_loop_ucs_field:
  assumes "write_loop e txt ms st = Inr st'"
    and "\<not> ucs_field st \<or> encode_us_ascii txt = None"
  shows "\<not> ucs_field st' \<or> encode_us_ascii txt = None"
  using assms
proof (induction ms arbitrary: st)
  case Nil
  then show ?case by simp
next
  case (Cons mobile rest)
  show ?case
  proof (cases "validate_mobile e mobile \<and> truthy (access_mobile e mobile)")
    case True
    with Cons.prems(1) obtain mid st1 res where
      sp: "spool_message e txt mobile st = Inr (mid, st1)" and
      rest: "write_loop e txt rest (st1\<lparr>result := res\<rparr>) = Inr st'"
      by (auto simp: bind_def split: sum.splits)
    from spool_message_state [OF sp] encode_text_components [OF Cons.prems(2), of "parts_count st"]
    have "\<not> ucs_field (st1\<lparr>result := res\<rparr>) \<or> encode_us_ascii txt = None"
      by auto
    from Cons.IH [OF rest this] show ?thesis .
  next
    case False
    with Cons.prems(1) obtain res where
      rest: "write_loop e txt rest (st\<lparr>result := res\<rparr>) = Inr st'"
      by (auto simp: bind_def split: sum.splits if_splits)
    from Cons.prems(2) have "\<not> ucs_field (st\<lparr>result := res\<rparr>) \<or> encode_us_ascii txt = None"
      by simp
    from Cons.IH [OF rest this] show ?thesis .
  qed
qed

lemma write_loop_append:
  "write_loop e txt (xs @ ys) st = bind (write_loop e txt xs st) (write_loop e txt ys)"
  by (induction xs arbitrary: st) (auto simp: bind_def split: sum.splits)

text \<open>
  Claim C9. Every successful run of the spool-writing branch, from a state that the loop
  of \<open>write_sms\<close> has reached after some earlier destinations, draws a temporary name in
  the queue directory that did not exist before (\<open>mkstemp\<close>, prefix, suffix \<open>.LOCK\<close>),
  writes the whole content to that file and then renames it to the final name, the path
  up to \<open>.LOCK\<close>, and sets the final file's mode to 0666 (438). The final file holds the
  line \<open>From: sender\<close>, the line \<open>Alphabet: UCS\<close> exactly when the text was encoded in
  UTF-16, the line \<open>To: destination\<close>, an empty line and the encoded body; the temporary
  name is gone; and the returned \<open>message_id\<close> is the final path after its last slash.
\<close>

theorem spool_write_discipline:
  assumes reach: "write_loop e txt earlier (start_state d) = Inr st"
    and ok: "spool_message e txt mobile st = Inr (message_id, st')"
  shows "\<exists>name.
           let tmp = tmp_path (OUTGOING e) (PREFIX e) ''.LOCK'' name;
               final = before_first ''.LOCK'' tmp;
               body = (case encode_us_ascii txt of Some b \<Rightarrow> b | None \<Rightarrow> encode_utf_16_be txt);
               from_line = ''From: '' @ username e @ [NL];
               alphabet = (if encode_us_ascii txt = None then [''Alphabet: UCS'' @ [NL]] else []);
               to_line = ''To: '' @ map char_of mobile @ [NL, NL]
           in name \<in> set (tmp_names (disk st)) \<and>
              files (disk st) tmp = None \<and>
              fs_log (disk st') =
                fs_log (disk st) @ [Mkstemp tmp, OpenW tmp, Write tmp from_line] @
                map (Write tmp) alphabet @
                [Write tmp to_line, Write tmp body, Rename tmp final, Chmod final 438] \<and>
              files (disk st') tmp = None \<and>
              files (disk st') final =
                Some \<lparr>content = from_line @ concat alphabet @ to_line @ body, mode = 438\<rparr> \<and>
              message_id = after_last CHR ''/'' final"
proof -
  have "\<not> ucs_field (start_state d) \<or> encode_us_ascii txt = None"
    by (simp add: start_state_def)
  with reach have "\<not> ucs_field st \<or> encode_us_ascii txt = None"
    by (rule write_loop_ucs_field)
  with ok show ?thesis
    by (rule spool_message_writes)
qed

lemma spool_hello_id:
  "map_sum id fst (spool_message alice (u ''hello'') (u ''15551234567'') (start_state empty_queue)) =
   Inr ''smsgw.Hh3yWx''"
  by code_simp

lemma final_of_names:
  "before_first ''.LOCK'' (tmp_path (OUTGOING alice) (PREFIX alice) ''.LOCK'' ''Hh3yWx'') =
     ''/var/spool/sms/outgoing/smsgw.Hh3yWx''"
  "before_first ''.LOCK'' (tmp_path (OUTGOING alice) (PREFIX alice) ''.LOCK'' ''k2Zq9a'') =
     ''/var/spool/sms/outgoing/smsgw.k2Zq9a''"
  by code_simp+

lemma hello_body:
  "encode_us_ascii (u ''hello'') = Some ''hello''"
  "map char_of (u ''15551234567'') = ''15551234567''"
  by code_simp+

lemma after_last_examples:
  "after_last CHR ''/'' ''/var/spool/sms/outgoing/smsgw.Hh3yWx'' = ''smsgw.Hh3yWx''"
  "after_last CHR ''/'' ''/var/spool/sms/outgoing/smsgw.k2Zq9a'' = ''smsgw.k2Zq9a''"
  by code_simp+

theorem spool_write_discipline_witness:
  "\<exists>st'. spool_message alice (u ''hello'') (u ''15551234567'') (start_state empty_queue) =
            Inr (''smsgw.Hh3yWx'', st') \<and>
         write_loop alice (u ''hello'') [] (start_state empty_queue) =
           Inr (start_state empty_queue) \<and>
         files (disk st') ''/var/spool/sms/outgoing/smsgw.Hh3yWx.LOCK'' = None \<and>
         files (disk st') ''/var/spool/sms/outgoing/smsgw.Hh3yWx'' =
           Some \<lparr>content = ''From: alice'' @ [NL] @ ''To: 15551234567'' @ [NL, NL] @ ''hello'',
                 mode = 438\<rparr>"
proof -
  obtain st' where ok:
    "spool_message alice (u ''hello'') (u ''15551234567'') (start_state empty_queue) =
       Inr (''smsgw.Hh3yWx'', st')"
    using spool_hello_id
    by (cases "spool_message alice (u ''hello'') (u ''15551234567'') (start_state empty_queue)")
      auto
  have reach: "write_loop alice (u ''hello'') [] (start_state empty_queue) =
                 Inr (start_state empty_queue)"
    by simp
  from spool_write_discipline [OF reach ok] obtain name where
    nm: "name \<in> set (tmp_names (disk (start_state empty_queue)))" and
    gone: "files (disk st') (tmp_path (OUTGOING alice) (PREFIX alice) ''.LOCK'' name) = None" and
    final: "files (disk st')
              (before_first ''.LOCK'' (tmp_path (OUTGOING alice) (PREFIX alice) ''.LOCK'' name)) =
            Some \<lparr>content = (''From: '' @ username alice @ [NL]) @
                     concat (if encode_us_ascii (u ''hello'') = None
                             then [''Alphabet: UCS'' @ [NL]] else []) @
                     (''To: '' @ map char_of (u ''15551234567'') @ [NL, NL]) @
                     (case encode_us_ascii (u ''hello'') of
                        Some b \<Rightarrow> b | None \<Rightarrow> encode_utf_16_be (u ''hello'')),
                  mode = 438\<rparr>" and
    mid: "''smsgw.Hh3yWx'' =
            after_last CHR ''/''
              (before_first ''.LOCK'' (tmp_path (OUTGOING alice) (PREFIX alice) ''.LOCK'' name))"
    unfolding Let_def by blast
  from nm have "name = ''Hh3yWx'' \<or> name = ''k2Zq9a''"
    by (simp add: start_state_def empty_queue_def)
  with mid have name: "name = ''Hh3yWx''"
    by (auto simp: final_of_names after_last_examples)
  have tmp: "tmp_path (OUTGOING alice) (PREFIX alice) ''.LOCK'' ''Hh3yWx'' =
               ''/var/spool/sms/outgoing/smsgw.Hh3yWx.LOCK''"
    by (simp add: tmp_path_def path_join_def alice_def startswith_def)
  from gone have a: "files (disk st') ''/var/spool/sms/outgoing/smsgw.Hh3yWx.LOCK'' = None"
    by (simp only: name tmp)
  from final [unfolded name final_of_names]
  have b: "files (disk st') ''/var/spool/sms/outgoing/smsgw.Hh3yWx'' =
           Some \<lparr>content = ''From: alice'' @ [NL] @ ''To: 15551234567'' @ [NL, NL] @ ''hello'',
                 mode = 438\<rparr>"
    by (simp add: hello_body alice_def)
  from ok reach a b show ?thesis by blast
qed

text \<open>
  The \<open>parts_count\<close> of the response is what the encoding block computes from the start
  state when at least one destination is valid and permitted, and 1 otherwise (the
  block is then never reached, whatever the length of the text).
\<close>

theorem write_sms_parts_count:
  assumes "write_sms e s d = Inr (res, d')"
  shows "map_of res (u ''parts_count'') =
           Some (JInt (if \<exists>m\<in>set (sms_mobiles s). validate_mobile e m \<and> truthy (access_mobile e m)
                       then snd (snd (encode_text (sms_text s) False 1))
                       else 1))"
proof -
  from assms obtain st where
    loop: "write_loop e (sms_text s) (sms_mobiles s) (start_state d) = Inr st" and
    res: "res = AList.update (u ''parts_count'') (JInt (parts_count st))
                  (AList.update (u ''sent_text'') (JStr (sms_text s)) (result st))"
    by (auto simp: write_sms_def bind_def split: sum.splits)
  have "(ucs_field (start_state d), parts_count (start_state d)) = (False, 1) \<or>
        (ucs_field (start_state d), parts_count (start_state d)) =
          snd (encode_text (sms_text s) False 1)"
    by (simp add: start_state_def)
  from write_loop_encoder_state [OF loop this, THEN arg_cong, of snd]
  have "parts_count st =
          (if \<exists>m\<in>set (sms_mobiles s). validate_mobile e m \<and> truthy (access_mobile e m)
           then snd (snd (encode_text (sms_text s) False 1))
           else 1)"
    by (auto simp: start_state_def split: if_splits)
  then show ?thesis
    by (simp add: res update_conv')
qed

theorem write_sms_parts_count_witness:
  "(\<exists>res d'. write_sms alice hello_two empty_queue = Inr (res, d') \<and>
      map_of res (u ''parts_count'') = Some (JInt 1)) \<and>
   (\<exists>m\<in>set (sms_mobiles hello_two). validate_mobile alice m \<and> truthy (access_mobile alice m)) \<and>
   snd (snd (encode_text (sms_text hello_two) False 1)) = 1"
proof -
  have "map_sum id fst (write_sms alice hello_two empty_queue) =
     Inr [(u ''message_id'', JDict [(u ''15551234567'', JStr (u ''smsgw.Hh3yWx''))]),
          (u ''abc'', JStr (u ''Not valid'')),
          (u ''sent_text'', JStr (u ''hello'')),
          (u ''parts_count'', JInt 1)]"
    by code_simp
  then obtain res d' where ok: "write_sms alice hello_two empty_queue = Inr (res, d')"
    by (cases "write_sms alice hello_two empty_queue") auto
  have valid: "\<exists>m\<in>set (sms_mobiles hello_two). validate_mobile alice m \<and> truthy (access_mobile alice m)"
    by code_simp
  have parts: "snd (snd (encode_text (sms_text hello_two) False 1)) = 1"
    by code_simp
  from write_sms_parts_count [OF ok] valid parts
  have "map_of res (u ''parts_count'') = Some (JInt 1)"
    by simp
  with ok valid parts show ?thesis by blast
qed

end
